theory Spec2Isabelle
  imports Complex_Main
begin

section \<open>Rotary positional embeddings: data model\<close>

text \<open>
  The development embeds \<^verbatim>\<open>vllm/model_executor/layers/rotary_embedding.py\<close>.
  The entries of the tables (torch float tensors) and the effective base are idealised as
  real numbers and lists of reals: their rounding and overflow and the dtype casts
  (\<^verbatim>\<open>cache.to(...)\<close>) are outside the model. The one float computation whose result is
  turned into an integer, the logarithm in \<^verbatim>\<open>get_ntk_alpha\<close>, is not idealised: the
  double-precision logarithm is a parameter of the model. Python integers are \<open>int\<close>.
  Every exception the source can raise on the paths modelled here is a value of
  \<open>error\<close>; a raising call returns \<open>Inl\<close>.
\<close>

datatype error =
    ZeroDivisionError   \<comment> \<open>Python \<^verbatim>\<open>/\<close> with a zero divisor\<close>
  | OverflowError       \<comment> \<open>Python \<^verbatim>\<open>/\<close> of integers with a quotient too large for a float\<close>
  | ValueError          \<comment> \<open>\<^verbatim>\<open>math.log\<close> outside its domain\<close>
  | RuntimeError        \<comment> \<open>raised by torch: inconsistent \<^verbatim>\<open>arange\<close> bounds, \<^verbatim>\<open>cat\<close> of no tensors\<close>

type_synonym table = "real list list"

text \<open>The constructor arguments of \<^verbatim>\<open>RotaryEmbedding\<close>, stored as attributes.\<close>

record rope_config =
  head_size :: int
  rotary_dim :: int
  max_position_embeddings :: int
  base :: real
  is_neox_style :: bool


text \<open>\<^verbatim>\<open>DynamicNTKScalingRotaryEmbeddingQwen\<close> adds \<^verbatim>\<open>_config_seq_length\<close>.\<close>

record qwen_config = rope_config +
  config_seq_length :: int

text \<open>The mutable attributes of a \<^verbatim>\<open>DynamicNTKScalingRotaryEmbeddingQwen\<close> instance.\<close>

record qwen_state =
  seq_len_cached :: int
  ntk_alpha_cached :: real
  cos_sin_cache :: table

section \<open>Frequency derivation and table construction\<close>

text \<open>
  \<^verbatim>\<open>torch.arange(0, n, 2, dtype=torch.float)\<close>: the even numbers below \<open>n\<close>; torch raises when
  the upper bound lies below the lower one.
\<close>

definition arange_step2 :: "int \<Rightarrow> error + real list" where
  "arange_step2 n =
     (if n < 0 then Inl RuntimeError
      else Inr (map (\<lambda>i. real (2 * i)) [0 ..< nat ((n + 1) div 2)]))"

text \<open>\<^verbatim>\<open>torch.arange(n, dtype=torch.float)\<close> for an integer \<open>n\<close>.\<close>

definition arange :: "int \<Rightarrow> error + real list" where
  "arange n = (if n < 0 then Inl RuntimeError else Inr (map real [0 ..< nat n]))"


text \<open>
  \<^verbatim>\<open>_compute_inv_freq\<close>: \<^verbatim>\<open>1.0 / (base ** (arange(0, rotary_dim, 2) / rotary_dim))\<close>.
  The power is the real power \<open>powr\<close>, which agrees with the source for a positive base.
\<close>

definition compute_inv_freq :: "'a rope_config_scheme \<Rightarrow> real \<Rightarrow> error + real list" where
  "compute_inv_freq cfg b =
     (case arange_step2 (rotary_dim cfg) of
        Inl e \<Rightarrow> Inl e
      | Inr xs \<Rightarrow> Inr (map (\<lambda>x. 1 / (b powr (x / real_of_int (rotary_dim cfg)))) xs))"

text \<open>\<^verbatim>\<open>torch.einsum("i,j -> ij", t, inv_freq)\<close>: the outer product.\<close>

definition einsum_outer :: "real list \<Rightarrow> real list \<Rightarrow> table" where
  "einsum_outer t inv_freq = map (\<lambda>ti. map (\<lambda>f. ti * f) inv_freq) t"

text \<open>
  \<^verbatim>\<open>torch.cat((freqs.cos(), freqs.sin()), dim=-1)\<close>: every row is its cosines followed by its
  sines. The four lines from \<^verbatim>\<open>einsum\<close> to \<^verbatim>\<open>cat\<close> occur verbatim in each cache builder.
\<close>

definition cos_sin_table :: "real list \<Rightarrow> real list \<Rightarrow> table" where
  "cos_sin_table t inv_freq =
     map (\<lambda>row. map cos row @ map sin row) (einsum_outer t inv_freq)"

text \<open>\<^verbatim>\<open>RotaryEmbedding._compute_cos_sin_cache\<close>, inherited unchanged by the Qwen variant.\<close>

definition compute_cos_sin_cache :: "'a rope_config_scheme \<Rightarrow> error + table" where
  "compute_cos_sin_cache cfg =
     (case compute_inv_freq cfg (base cfg) of
        Inl e \<Rightarrow> Inl e
      | Inr inv_freq \<Rightarrow>
          (case arange (max_position_embeddings cfg) of
             Inl e \<Rightarrow> Inl e
           | Inr t \<Rightarrow> Inr (cos_sin_table t inv_freq)))"


section \<open>Construction\<close>


text \<open>
  \<^verbatim>\<open>DynamicNTKScalingRotaryEmbeddingQwen.__init__\<close>: sets \<^verbatim>\<open>_seq_len_cached = 0\<close> and
  \<^verbatim>\<open>_ntk_alpha_cached = 1.0\<close>, then calls the base constructor, which runs the inherited
  (baseline) cache builder.
\<close>

definition qwen_init :: "'a qwen_config_scheme \<Rightarrow> error + qwen_state" where
  "qwen_init cfg =
     (case compute_cos_sin_cache cfg of
        Inl e \<Rightarrow> Inl e
      | Inr cache \<Rightarrow>
          Inr \<lparr>seq_len_cached = 0, ntk_alpha_cached = 1, cos_sin_cache = cache\<rparr>)"

section \<open>The adaptive variant: alpha and the recompute policy\<close>

text \<open>
  \<^verbatim>\<open>get_ntk_alpha\<close>. The true division of two integers yields the double nearest to the
  quotient: it raises \<^verbatim>\<open>ZeroDivisionError\<close> on a zero reference length and
  \<^verbatim>\<open>OverflowError\<close> when the quotient rounds beyond the largest double, that is from
  \<open>2^1024 - 2^970\<close> on; a quotient of at most \<open>2^-1075\<close> rounds to \<open>0.0\<close> (or is not
  positive), and \<^verbatim>\<open>math.log\<close> raises \<^verbatim>\<open>ValueError\<close> on it.

  \<^verbatim>\<open>math.log(x, 2)\<close> is computed in double precision by the platform's C library, as a
  quotient of two rounded natural logarithms; the source does not determine its values
  and they are not those of the real logarithm (\<^verbatim>\<open>math.log(2**29, 2)\<close> is
  \<^verbatim>\<open>29.000000000000004\<close>). It is the parameter \<open>mlog\<close>: \<open>mlog x + 1\<close> stands for the
  double \<^verbatim>\<open>context_value\<close> the platform computes when the exact quotient of the two
  integers is \<open>x\<close>, so the rounding of the quotient and of the addition is part of
  \<open>mlog\<close> as well. Every statement below that does not constrain \<open>mlog\<close> holds whatever
  the platform computes.

  \<^verbatim>\<open>2 ** math.ceil(...)\<close> is an integer for a non-negative exponent and a float below; the
  real power covers both.
\<close>

definition get_ntk_alpha ::
  "(real \<Rightarrow> real) \<Rightarrow> 'a qwen_config_scheme \<Rightarrow> int \<Rightarrow> error + real" where
  "get_ntk_alpha mlog cfg true_seq_len =
     (if config_seq_length cfg = 0 then Inl ZeroDivisionError
      else
        let ratio = real_of_int true_seq_len / real_of_int (config_seq_length cfg) in
        if 2 ^ 1024 - 2 ^ 970 \<le> \<bar>ratio\<bar> then Inl OverflowError
        else if ratio \<le> 1 / 2 ^ 1075 then Inl ValueError
        else
          let context_value = mlog ratio + 1;
              ntk_alpha = 2 powr (of_int \<lceil>context_value\<rceil>) - 1
          in Inr (max ntk_alpha 1))"

text \<open>
  \<^verbatim>\<open>_update_cos_sin_cache\<close>. In the rebuilding branch the exponent is evaluated before any
  attribute is assigned, so a raising call leaves the instance as it was.
\<close>

definition update_cos_sin_cache ::
  "(real \<Rightarrow> real) \<Rightarrow> 'a qwen_config_scheme \<Rightarrow> qwen_state \<Rightarrow> int \<Rightarrow>
     error + qwen_state" where
  "update_cos_sin_cache mlog cfg st max_seq_len =
     (case get_ntk_alpha mlog cfg max_seq_len of
        Inl e \<Rightarrow> Inl e
      | Inr ntk_alpha \<Rightarrow>
          if max_seq_len > seq_len_cached st \<or> ntk_alpha \<noteq> ntk_alpha_cached st then
            if rotary_dim cfg - 2 = 0 then Inl ZeroDivisionError
            else
              let b = base cfg * ntk_alpha powr
                        (real_of_int (rotary_dim cfg) / real_of_int (rotary_dim cfg - 2))
              in case compute_inv_freq cfg b of
                   Inl e \<Rightarrow> Inl e
                 | Inr inv_freq \<Rightarrow>
                     (let n = max (2 * max_seq_len) 16 in
                      case arange n of
                        Inl e \<Rightarrow> Inl e
                      | Inr t \<Rightarrow>
                          Inr (st\<lparr>seq_len_cached := n,
                                  ntk_alpha_cached := ntk_alpha,
                                  cos_sin_cache := cos_sin_table t inv_freq\<rparr>))
          else Inr st)"

section \<open>The adaptive variant: the batch driver\<close>

text \<open>
  The part of \<^verbatim>\<open>InputMetadata\<close> that \<^verbatim>\<open>forward\<close> reads: the prompt lengths (a list) and the
  context lengths (an integer tensor, read through \<^verbatim>\<open>tolist()\<close>).
\<close>

record input_metadata =
  prompt_lens :: "int list"
  context_lens :: "int list"

text \<open>
  A basic slice of a tensor along its first dimension is a view: it shares the storage of
  the tensor it was taken from. A view is kept as its first row and its number of rows,
  computed as Python does for a slice with step 1 of a sequence of \<open>n\<close> rows: a negative
  bound counts from the end, and both bounds are clipped to \<open>0..n\<close>.
\<close>

type_synonym view = "nat \<times> nat"

definition norm_index :: "int \<Rightarrow> nat \<Rightarrow> nat" where
  "norm_index i n = (if i < 0 then nat (max (i + int n) 0) else min (nat i) n)"

text \<open>\<open>slice_view s (Some e) n\<close> is \<^verbatim>\<open>x[s:e]\<close> and \<open>slice_view s None n\<close> is \<^verbatim>\<open>x[s:]\<close>.\<close>

definition slice_view :: "int \<Rightarrow> int option \<Rightarrow> nat \<Rightarrow> view" where
  "slice_view s e n =
     (let a = norm_index s n;
          b = (case e of None \<Rightarrow> n | Some e' \<Rightarrow> norm_index e' n)
      in (a, b - a))"

definition read_view :: "view \<Rightarrow> 'r list \<Rightarrow> 'r list" where
  "read_view v buf = take (snd v) (drop (fst v) buf)"

definition write_view :: "view \<Rightarrow> 'r list \<Rightarrow> 'r list \<Rightarrow> 'r list" where
  "write_view v rows buf = take (fst v) buf @ rows @ drop (fst v + snd v) buf"

text \<open>
  Modelled from the spec: the rotation kernel \<^verbatim>\<open>pos_encoding_ops.rotary_embedding\<close>, a compiled
  operation that is not part of the Python source. It updates the query and key rows it is
  given in place; row \<open>t\<close> is rotated with the cache and the position \<open>positions[t]\<close>. The
  rotation of one row is the parameter \<open>rot\<close> (it stands for the head size and the style as
  well, which are fixed per instance). The kernel receives views, so the rows are written
  back into the buffers the views were taken from. The kernel requires as many positions
  as rows.
\<close>

definition rotary_embedding ::
  "(table \<Rightarrow> int \<Rightarrow> 'r \<Rightarrow> 'r) \<Rightarrow> table \<Rightarrow> int list \<Rightarrow> view \<Rightarrow> view \<Rightarrow>
     'r list \<Rightarrow> 'r list \<Rightarrow> 'r list \<times> 'r list" where
  "rotary_embedding rot cache ps qv kv qbuf kbuf =
     (write_view qv (map2 (rot cache) ps (read_view qv qbuf)) qbuf,
      write_view kv (map2 (rot cache) ps (read_view kv kbuf)) kbuf)"

text \<open>\<^verbatim>\<open>torch.cat(tensors, dim=0)\<close> raises when it is given no tensor.\<close>

definition torch_cat :: "'r list list \<Rightarrow> error + 'r list" where
  "torch_cat xs = (if xs = [] then Inl RuntimeError else Inr (concat xs))"

text \<open>
  The variables of the loop of \<^verbatim>\<open>forward\<close>: the instance, the two flat buffers (written in
  place through the views), the two lists of views collected so far, and \<^verbatim>\<open>_prev\<close>.
\<close>

record 'r loop_state =
  self_state :: qwen_state
  query_buf :: "'r list"
  key_buf :: "'r list"
  query_list :: "view list"
  key_list :: "view list"
  prev :: int

text \<open>
  The body of \<^verbatim>\<open>for i, seq_len in enumerate(seq_lens)\<close>, by recursion on the lengths still
  to be visited; \<^verbatim>\<open>i != batch_size - 1\<close> holds exactly when lengths remain after this one.
\<close>

fun forward_loop ::
  "(real \<Rightarrow> real) \<Rightarrow> 'a qwen_config_scheme \<Rightarrow> (table \<Rightarrow> int \<Rightarrow> 'r \<Rightarrow> 'r) \<Rightarrow> bool \<Rightarrow> int list \<Rightarrow>
     int list \<Rightarrow> 'r loop_state \<Rightarrow> error + 'r loop_state" where
  "forward_loop mlog cfg rot is_continue positions [] ls = Inr ls"
| "forward_loop mlog cfg rot is_continue positions (seq_len # rest) ls =
     (let start = prev ls;
          end = (if is_continue then start + 1 else start + seq_len);
          stop = (if rest \<noteq> [] then Some end else None);
          qv = slice_view start stop (length (query_buf ls));
          kv = slice_view start stop (length (key_buf ls));
          pv = slice_view start stop (length positions)
      in case update_cos_sin_cache mlog cfg (self_state ls) seq_len of
           Inl e \<Rightarrow> Inl e
         | Inr st \<Rightarrow>
             (case rotary_embedding rot (cos_sin_cache st) (read_view pv positions) qv kv
                     (query_buf ls) (key_buf ls) of
                (qbuf, kbuf) \<Rightarrow>
                  forward_loop mlog cfg rot is_continue positions rest
                    \<lparr>self_state = st, query_buf = qbuf, key_buf = kbuf,
                     query_list = query_list ls @ [qv], key_list = key_list ls @ [kv],
                     prev = end\<rparr>))"

text \<open>
  \<^verbatim>\<open>DynamicNTKScalingRotaryEmbeddingQwen.forward\<close>. The result is the instance after the call
  and the two concatenated tensors; the concatenation copies the rows the views show once
  the loop has finished.
\<close>

definition forward ::
  "(real \<Rightarrow> real) \<Rightarrow> 'a qwen_config_scheme \<Rightarrow> (table \<Rightarrow> int \<Rightarrow> 'r \<Rightarrow> 'r) \<Rightarrow> qwen_state \<Rightarrow> int list \<Rightarrow>
     'r list \<Rightarrow> 'r list \<Rightarrow> input_metadata \<Rightarrow> error + (qwen_state \<times> 'r list \<times> 'r list)" where
  "forward mlog cfg rot st positions query key md =
     (let (seq_lens, is_continue) =
            (if length (prompt_lens md) > 0 then (prompt_lens md, False)
             else (context_lens md, True))
      in case forward_loop mlog cfg rot is_continue positions seq_lens
                \<lparr>self_state = st, query_buf = query, key_buf = key,
                 query_list = [], key_list = [], prev = 0\<rparr> of
           Inl e \<Rightarrow> Inl e
         | Inr ls \<Rightarrow>
             (case torch_cat (map (\<lambda>v. read_view v (query_buf ls)) (query_list ls)) of
                Inl e \<Rightarrow> Inl e
              | Inr q \<Rightarrow>
                  (case torch_cat (map (\<lambda>v. read_view v (key_buf ls)) (key_list ls)) of
                     Inl e \<Rightarrow> Inl e
                   | Inr k \<Rightarrow> Inr (self_state ls, q, k))))"

section \<open>Specification-side definitions\<close>

text \<open>
  The alpha function in the words of the specification:
  \<open>alpha(true_len) = max(1, 2^ceil(log2(true_len / reference_length) + 1) - 1)\<close>.
\<close>

definition alpha_spec :: "int \<Rightarrow> int \<Rightarrow> real" where
  "alpha_spec reference_length true_len =
     max 1 (2 powr (of_int
       \<lceil>log 2 (real_of_int true_len / real_of_int reference_length) + 1\<rceil>) - 1)"

text \<open>
  The value \<^verbatim>\<open>get_ntk_alpha\<close> returns when it returns: the same expression with the
  logarithm the platform computes. With the real logarithm it is \<open>alpha_spec\<close>.
\<close>

definition ntk_alpha_value :: "(real \<Rightarrow> real) \<Rightarrow> int \<Rightarrow> int \<Rightarrow> real" where
  "ntk_alpha_value mlog reference_length true_len =
     max 1 (2 powr (of_int
       \<lceil>mlog (real_of_int true_len / real_of_int reference_length) + 1\<rceil>) - 1)"

text \<open>
  The quotients whose nearest double is positive and finite: on these the true division
  and \<^verbatim>\<open>math.log\<close> do not raise. For a true length of at least 1 and a positive reference
  length, every true length below \<open>2^1023\<close> and reference length up to \<open>2^1074\<close> give
  such a quotient.
\<close>

definition in_double_range :: "real \<Rightarrow> bool" where
  "in_double_range x \<longleftrightarrow> 1 / 2 ^ 1075 < x \<and> x < 2 ^ 1024 - 2 ^ 970"

text \<open>
  The frequency derivation in the words of the specification:
  \<open>inv_freq[j] = 1 / base^(2j / rotary_dim)\<close> for \<open>j = 0 .. rotary_dim/2 - 1\<close>.
\<close>

definition inv_freq_spec :: "real \<Rightarrow> int \<Rightarrow> real list" where
  "inv_freq_spec b rd =
     map (\<lambda>j. 1 / b powr (real (2 * j) / real_of_int rd)) [0 ..< nat (rd div 2)]"

text \<open>
  A table over \<open>L\<close> positions with the unscaled position index: row \<open>p\<close> holds the cosines
  of \<open>p \<cdot> inv_freq[j]\<close> followed by the sines.
\<close>

definition table_spec :: "real list \<Rightarrow> nat \<Rightarrow> table" where
  "table_spec inv_freq L =
     map (\<lambda>p. map (\<lambda>f. cos (real p * f)) inv_freq @ map (\<lambda>f. sin (real p * f)) inv_freq)
       [0 ..< L]"

text \<open>
  The condition of the recompute policy and the state a rebuild installs, in the words of
  the specification: effective base \<open>base \<times> alpha^(rotary_dim/(rotary_dim - 2))\<close>, new
  cached length \<open>max(2 \<times> true_len, 16)\<close>.
\<close>

definition must_rebuild ::
  "(real \<Rightarrow> real) \<Rightarrow> 'a qwen_config_scheme \<Rightarrow> qwen_state \<Rightarrow> int \<Rightarrow> bool" where
  "must_rebuild mlog cfg st true_len \<longleftrightarrow>
     true_len > seq_len_cached st \<or>
     ntk_alpha_value mlog (config_seq_length cfg) true_len \<noteq> ntk_alpha_cached st"

definition base_eff :: "'a qwen_config_scheme \<Rightarrow> real \<Rightarrow> real" where
  "base_eff cfg alpha =
     base cfg * alpha powr (real_of_int (rotary_dim cfg) / real_of_int (rotary_dim cfg - 2))"

definition rebuilt :: "(real \<Rightarrow> real) \<Rightarrow> 'a qwen_config_scheme \<Rightarrow> int \<Rightarrow> qwen_state" where
  "rebuilt mlog cfg true_len =
     (let alpha = ntk_alpha_value mlog (config_seq_length cfg) true_len;
          cached_length = max (2 * true_len) 16
      in \<lparr>seq_len_cached = cached_length,
          ntk_alpha_cached = alpha,
          cos_sin_cache =
            table_spec (inv_freq_spec (base_eff cfg alpha) (rotary_dim cfg))
              (nat cached_length)\<rparr>)"

text \<open>
  A sequence of calls of the recompute policy on one instance, as a caller issues them:
  the states after each call, or the first exception.
\<close>

fun run_updates ::
  "(real \<Rightarrow> real) \<Rightarrow> 'a qwen_config_scheme \<Rightarrow> qwen_state \<Rightarrow> int list \<Rightarrow> error + qwen_state list" where
  "run_updates mlog cfg st [] = Inr []"
| "run_updates mlog cfg st (t # ts) =
     (case update_cos_sin_cache mlog cfg st t of
        Inl e \<Rightarrow> Inl e
      | Inr st' \<Rightarrow>
          (case run_updates mlog cfg st' ts of
             Inl e \<Rightarrow> Inl e
           | Inr tr \<Rightarrow> Inr (st' # tr)))"

text \<open>
  The configuration the source names in its comments (\<^verbatim>\<open>8192 for Qwen-7B\<close>), used for the
  concrete instances below, and a fixed dynamic-NTK configuration with the same shape.
\<close>

definition qwen_7b :: qwen_config where
  "qwen_7b = \<lparr>head_size = 128, rotary_dim = 128, max_position_embeddings = 8192,
              base = 10000, is_neox_style = True, config_seq_length = 8192\<rparr>"



text \<open>The state \<^verbatim>\<open>__init__\<close> leaves for that configuration (see \<open>qwen_init_eq\<close> below).\<close>

definition qwen_7b_init :: qwen_state where
  "qwen_7b_init = \<lparr>seq_len_cached = 0, ntk_alpha_cached = 1,
                    cos_sin_cache = table_spec (inv_freq_spec 10000 128) 8192\<rparr>"

text \<open>
  The batch descriptor in the words of the specification. A sample spans its declared
  length in prefill mode and exactly one token in decode mode; the samples follow each
  other in the flat buffers, and the range of the last one extends to the end of the
  buffers (\<open>n\<close> rows).
\<close>

definition sample_width :: "bool \<Rightarrow> int \<Rightarrow> nat" where
  "sample_width is_continue l = (if is_continue then 1 else nat l)"

fun slices_spec :: "bool \<Rightarrow> int list \<Rightarrow> nat \<Rightarrow> nat \<Rightarrow> view list" where
  "slices_spec ic [] s n = []"
| "slices_spec ic [l] s n = [(s, n - s)]"
| "slices_spec ic (l # l' # ls) s n =
     (s, sample_width ic l) # slices_spec ic (l' # ls) (s + sample_width ic l) n"

text \<open>The number of rows the lengths of a batch declare.\<close>

definition declared_rows :: "bool \<Rightarrow> int list \<Rightarrow> nat" where
  "declared_rows ic lens = sum_list (map (sample_width ic) lens)"

text \<open>
  The table each row of the flat buffers is rotated with: every row of a sample's range gets
  the table the instance holds after the recompute policy ran for that sample.
\<close>

definition row_tables :: "qwen_state list \<Rightarrow> view list \<Rightarrow> table list" where
  "row_tables tr vs = concat (map2 (\<lambda>st v. replicate (snd v) (cos_sin_cache st)) tr vs)"

text \<open>
  Row-wise rotation in the order of the input: row \<open>t\<close> of the result is row \<open>t\<close> of the
  input, rotated at position \<open>positions[t]\<close> with the table \<open>tabs[t]\<close>.
\<close>

definition rotate_rows ::
  "(table \<Rightarrow> int \<Rightarrow> 'r \<Rightarrow> 'r) \<Rightarrow> table list \<Rightarrow> int list \<Rightarrow> 'r list \<Rightarrow> 'r list" where
  "rotate_rows rot tabs ps rows = map2 (\<lambda>c (p, r). rot c p r) tabs (zip ps rows)"

section \<open>The alpha function and the recompute policy: lemmas\<close>

lemma get_ntk_alpha_eq:
  assumes "0 < config_seq_length cfg" "1 \<le> t"
    and "in_double_range (real_of_int t / real_of_int (config_seq_length cfg))"
  shows "get_ntk_alpha mlog cfg t = Inr (ntk_alpha_value mlog (config_seq_length cfg) t)"
proof -
  let ?x = "real_of_int t / real_of_int (config_seq_length cfg)"
  have "0 < ?x" using assms(1,2) by simp
  then have "\<bar>?x\<bar> = ?x" by (rule abs_of_pos)
  then have a: "\<not> 2 ^ 1024 - 2 ^ 970 \<le> \<bar>?x\<bar>"
    using assms(3) by (simp only: in_double_range_def not_le)
  have b: "\<not> ?x \<le> 1 / 2 ^ 1075"
    using assms(3) by (simp only: in_double_range_def not_le)
  show ?thesis
    using assms(1) a b unfolding get_ntk_alpha_def ntk_alpha_value_def Let_def
    by (simp only: if_False max.commute) simp
qed

lemma ntk_alpha_value_exact: "ntk_alpha_value (log 2) r t = alpha_spec r t"
  by (simp add: ntk_alpha_value_def alpha_spec_def)

lemma ntk_alpha_value_ge_1: "1 \<le> ntk_alpha_value mlog r t"
  by (simp add: ntk_alpha_value_def)

lemma ntk_alpha_value_nonpos:
  assumes "mlog (real_of_int t / real_of_int r) \<le> 0"
  shows "ntk_alpha_value mlog r t = 1"
proof -
  have "\<lceil>mlog (real_of_int t / real_of_int r) + 1\<rceil> \<le> 1"
    using assms by (simp add: ceiling_le_iff)
  then have "(2::real) powr (of_int \<lceil>mlog (real_of_int t / real_of_int r) + 1\<rceil>)
               \<le> 2 powr (of_int 1)"
    by (intro powr_mono) simp_all
  then show ?thesis unfolding ntk_alpha_value_def by simp
qed


lemma in_double_rangeI:
  assumes "1 \<le> t" "t < 2 ^ 1023" "0 < r" "r \<le> 2 ^ 1074"
  shows "in_double_range (real_of_int t / real_of_int r)"
proof -
  have r: "0 < real_of_int r" "real_of_int r \<le> 2 ^ 1074" "1 \<le> real_of_int r"
    using assms(3,4) by simp_all
  have t: "1 \<le> real_of_int t" "real_of_int t < 2 ^ 1023"
    using assms(1,2) by simp_all
  have "(1::real) / 2 ^ 1075 < 1 / 2 ^ 1074"
    by simp
  also have "\<dots> \<le> 1 / real_of_int r"
    using r by (simp only: frac_le order_refl zero_le_one)
  also have "\<dots> \<le> real_of_int t / real_of_int r"
    using r(1) t(1) by (simp only: divide_right_mono less_imp_le)
  finally have lo: "1 / 2 ^ 1075 < real_of_int t / real_of_int r" .
  have "real_of_int t / real_of_int r \<le> real_of_int t"
    using r t by (simp add: field_simps mult_le_cancel_left1)
  then have hi: "real_of_int t / real_of_int r < 2 ^ 1024 - 2 ^ 970"
    using t by simp
  show ?thesis using lo hi by (simp only: in_double_range_def simp_thms)
qed

lemma alpha_spec_ge_1: "1 \<le> alpha_spec r t"
  by (simp add: alpha_spec_def)

lemma alpha_spec_mono:
  assumes "0 < r" "1 \<le> t" "t \<le> t'"
  shows "alpha_spec r t \<le> alpha_spec r t'"
proof -
  have "real_of_int t / real_of_int r \<le> real_of_int t' / real_of_int r"
    using assms by (simp add: divide_right_mono)
  moreover have "0 < real_of_int t / real_of_int r" using assms by simp
  ultimately have "log 2 (real_of_int t / real_of_int r) \<le> log 2 (real_of_int t' / real_of_int r)"
    by simp
  then have "\<lceil>log 2 (real_of_int t / real_of_int r) + 1\<rceil> \<le> \<lceil>log 2 (real_of_int t' / real_of_int r) + 1\<rceil>"
    by (intro ceiling_mono) simp
  then have "(2::real) powr (of_int \<lceil>log 2 (real_of_int t / real_of_int r) + 1\<rceil>)
      \<le> 2 powr (of_int \<lceil>log 2 (real_of_int t' / real_of_int r) + 1\<rceil>)"
    by (intro powr_mono) simp_all
  then show ?thesis
    unfolding alpha_spec_def by linarith
qed

lemma ceiling_log2_unique:
  assumes "2 ^ k < x" "x \<le> 2 ^ Suc k"
  shows "\<lceil>log 2 x\<rceil> = int (Suc k)"
proof (rule ceiling_unique)
  have x: "0 < x" using assms(1) by (smt (verit) zero_less_power)
  have "real k < log 2 x"
    using assms(1) x by (simp add: less_log_iff powr_realpow)
  then show "of_int (int (Suc k)) - 1 < log 2 x" by simp
  have "(2::real) powr real (Suc k) = 2 ^ Suc k"
    by (rule powr_realpow) simp
  then have "log 2 x \<le> real (Suc k)"
    using assms(2) x by (simp only: log_le_iff [of 2 x "real (Suc k)"])
  then show "log 2 x \<le> of_int (int (Suc k))" by simp
qed

lemma alpha_spec_le_ref:
  assumes "0 < r" "1 \<le> t" "t \<le> r"
  shows "alpha_spec r t = 1"
proof -
  have "0 < real_of_int t / real_of_int r" "real_of_int t / real_of_int r \<le> 1"
    using assms by simp_all
  then have "log 2 (real_of_int t / real_of_int r) \<le> 0" by simp
  then have "\<lceil>log 2 (real_of_int t / real_of_int r) + 1\<rceil> \<le> 1"
    by (simp add: ceiling_le_iff)
  then have "(2::real) powr (of_int \<lceil>log 2 (real_of_int t / real_of_int r) + 1\<rceil>) \<le> 2 powr (of_int 1)"
    by (intro powr_mono) simp_all
  then show ?thesis unfolding alpha_spec_def by simp
qed

lemma alpha_spec_step:
  assumes "0 < r" "r * 2 ^ k < t" "t \<le> r * 2 ^ Suc k"
  shows "alpha_spec r t = 2 ^ (k + 2) - 1"
proof -
  have r: "0 < real_of_int r" using assms by simp
  have "real_of_int (r * 2 ^ k) < real_of_int t" using assms(2) by linarith
  then have a: "2 ^ k < real_of_int t / real_of_int r" using r by (simp add: pos_less_divide_eq mult.commute)
  have "real_of_int t \<le> real_of_int (r * 2 ^ Suc k)" using assms(3) by linarith
  then have b: "real_of_int t / real_of_int r \<le> 2 ^ Suc k" using r by (simp add: pos_divide_le_eq mult.commute)
  have "\<lceil>log 2 (real_of_int t / real_of_int r)\<rceil> = int (Suc k)"
    using ceiling_log2_unique [OF a b] .
  then have "\<lceil>log 2 (real_of_int t / real_of_int r) + 1\<rceil> = int (k + 2)" by simp
  then have "(2::real) powr (of_int \<lceil>log 2 (real_of_int t / real_of_int r) + 1\<rceil>) = 2 ^ (k + 2)"
    by (simp only: powr_realpow zero_less_numeral of_int_of_nat_eq)
  moreover have "(1::real) \<le> 2 ^ (k + 2) - 1" 
    using one_le_power [of "2::real" "k + 2"] power_increasing [of 1 "k+2" "2::real"] by simp
  ultimately show ?thesis unfolding alpha_spec_def by simp
qed

lemma compute_inv_freq_eq:
  assumes "0 \<le> rotary_dim cfg" "even (rotary_dim cfg)"
  shows "compute_inv_freq cfg b = Inr (inv_freq_spec b (rotary_dim cfg))"
proof -
  have "(rotary_dim cfg + 1) div 2 = rotary_dim cfg div 2"
    using assms(2) by presburger
  then show ?thesis
    using assms(1) by (simp add: compute_inv_freq_def arange_step2_def inv_freq_spec_def)
qed

lemma cos_sin_table_eq: "cos_sin_table (map real [0 ..< L]) fs = table_spec fs L"
  by (simp add: cos_sin_table_def einsum_outer_def table_spec_def comp_def)

lemma update_cos_sin_cache_eq:
  assumes "1 \<le> t" "0 < config_seq_length cfg"
    and "0 \<le> rotary_dim cfg" "even (rotary_dim cfg)" "rotary_dim cfg \<noteq> 2"
    and "in_double_range (real_of_int t / real_of_int (config_seq_length cfg))"
  shows "update_cos_sin_cache mlog cfg st t =
           Inr (if must_rebuild mlog cfg st t then rebuilt mlog cfg t else st)"
proof -
  have n: "\<not> max (2 * t) 16 < 0" using assms(1) by simp
  show ?thesis
    unfolding update_cos_sin_cache_def get_ntk_alpha_eq [OF assms(2) assms(1) assms(6)]
      compute_inv_freq_eq [OF assms(3) assms(4)]
    using assms(5) n
    by (simp add: must_rebuild_def rebuilt_def base_eff_def arange_def cos_sin_table_eq
        Let_def)
qed

lemma must_rebuild_rebuilt: "\<not> must_rebuild mlog cfg (rebuilt mlog cfg t) t"
  by (simp add: must_rebuild_def rebuilt_def Let_def)

lemma length_table_spec: "length (table_spec fs L) = L"
  by (simp add: table_spec_def)

lemma qwen_init_eq:
  assumes "0 \<le> max_position_embeddings cfg" "0 \<le> rotary_dim cfg" "even (rotary_dim cfg)"
  shows "qwen_init cfg =
     Inr \<lparr>seq_len_cached = 0, ntk_alpha_cached = 1,
          cos_sin_cache = table_spec (inv_freq_spec (base cfg) (rotary_dim cfg))
                            (nat (max_position_embeddings cfg))\<rparr>"
  using assms(1)
  by (simp add: qwen_init_def compute_cos_sin_cache_def compute_inv_freq_eq [OF assms(2,3)]
      arange_def cos_sin_table_eq)

lemma run_updates_sorted:
  assumes cfg: "0 < config_seq_length cfg" "0 \<le> rotary_dim cfg" "even (rotary_dim cfg)"
      "rotary_dim cfg \<noteq> 2"
    and "sorted ts" "\<forall>t\<in>set ts. 1 \<le> t"
    and "\<forall>t\<in>set ts. seq_len_cached st \<le> max (2 * t) 16"
    and "\<forall>t\<in>set ts.
           in_double_range (real_of_int t / real_of_int (config_seq_length cfg))"
  shows "\<exists>tr. run_updates mlog cfg st ts = Inr tr \<and> length tr = length ts \<and>
           sorted (map seq_len_cached (st # tr))"
  using assms(5-)
proof (induction ts arbitrary: st)
  case Nil
  then show ?case by simp
next
  case (Cons t ts)
  define st' where "st' = (if must_rebuild mlog cfg st t then rebuilt mlog cfg t else st)"
  have t: "1 \<le> t" using Cons.prems(2) by simp
  have rg: "in_double_range (real_of_int t / real_of_int (config_seq_length cfg))"
    using Cons.prems(4) by simp
  have upd: "update_cos_sin_cache mlog cfg st t = Inr st'"
    unfolding st'_def using update_cos_sin_cache_eq [OF t cfg rg] .
  have le: "seq_len_cached st \<le> seq_len_cached st'"
    using Cons.prems(3) by (simp add: st'_def rebuilt_def Let_def)
  have bound: "seq_len_cached st' \<le> max (2 * t) 16"
    using Cons.prems(3) by (simp add: st'_def rebuilt_def Let_def)
  have "\<forall>u\<in>set ts. seq_len_cached st' \<le> max (2 * u) 16"
  proof
    fix u assume "u \<in> set ts"
    then have "t \<le> u" using Cons.prems(1) by simp
    then show "seq_len_cached st' \<le> max (2 * u) 16" using bound by linarith
  qed
  moreover have "sorted ts" "\<forall>t\<in>set ts. 1 \<le> t"
    "\<forall>t\<in>set ts. in_double_range (real_of_int t / real_of_int (config_seq_length cfg))"
    using Cons.prems by simp_all
  ultimately obtain tr where tr: "run_updates mlog cfg st' ts = Inr tr" "length tr = length ts"
      "sorted (map seq_len_cached (st' # tr))"
    using Cons.IH by blast
  have "sorted (map seq_len_cached (st # st' # tr))"
    using tr(3) le by (auto intro: order_trans)
  then show ?case using upd tr by simp
qed

lemma qwen_7b_simps:
  "rotary_dim qwen_7b = 128" "config_seq_length qwen_7b = 8192"
  "max_position_embeddings qwen_7b = 8192" "base qwen_7b = 10000"
  by (simp_all add: qwen_7b_def)

lemma in_double_range_8192:
  "1 \<le> t \<Longrightarrow> t < 2 ^ 1023 \<Longrightarrow> in_double_range (real_of_int t / 8192)"
  using in_double_rangeI [of t 8192] by simp

lemma alpha_spec_8192:
  "alpha_spec 8192 8192 = 1" "alpha_spec 8192 8193 = 3" "alpha_spec 8192 16384 = 3"
  "alpha_spec 8192 32768 = 7" "alpha_spec 8192 20000 = 7" "alpha_spec 8192 10 = 1"
  using alpha_spec_le_ref [of 8192 8192] alpha_spec_step [of 8192 0 8193]
    alpha_spec_step [of 8192 0 16384] alpha_spec_step [of 8192 1 32768]
    alpha_spec_step [of 8192 1 20000] alpha_spec_le_ref [of 8192 10]
  by simp_all

section \<open>The batch driver: lemmas\<close>

lemma rotate_rows_replicate:
  assumes "length rows \<le> w"
  shows "rotate_rows rot (replicate w c) ps rows = map2 (rot c) ps rows"
proof -
  have "take w (zip ps rows) = zip ps rows" using assms by simp
  then show ?thesis
    by (simp add: rotate_rows_def zip_replicate1 comp_def)
qed

lemma rotate_rows_append:
  "rotate_rows rot (as @ bs) ps rows =
     rotate_rows rot as (take (length as) ps) (take (length as) rows) @
     rotate_rows rot bs (drop (length as) ps) (drop (length as) rows)"
  by (simp add: rotate_rows_def zip_append1 take_zip drop_zip)

lemma length_rotate_rows:
  "length (rotate_rows rot tabs ps rows) = min (length tabs) (min (length ps) (length rows))"
  by (simp add: rotate_rows_def)

lemma slice_view_last:
  "s \<le> n \<Longrightarrow> slice_view (int s) None n = (s, n - s)"
  by (simp add: slice_view_def norm_index_def)

lemma slice_view_inner:
  "s + w \<le> n \<Longrightarrow> slice_view (int s) (Some (int s + int w)) n = (s, w)"
  by (simp add: slice_view_def norm_index_def nat_add_distrib)

lemma kernel_buffer:
  fixes buf :: "'r list"
  assumes "s + w \<le> length buf" "s + w \<le> length pos"
    and buf1_def: "buf1 = write_view (s, w) (map2 (rot c) (read_view (s, w) pos) (read_view (s, w) buf)) buf"
  shows "length buf1 = length buf"
    and "take (s + w) buf1 @ rotate_rows rot tabs (drop (s + w) pos) (drop (s + w) buf1) =
         take s buf @ rotate_rows rot (replicate w c @ tabs) (drop s pos) (drop s buf)"
proof -
  let ?mid = "map2 (rot c) (take w (drop s pos)) (take w (drop s buf))"
  have mid: "length ?mid = w" using assms(1,2) by simp
  have b1: "buf1 = take s buf @ ?mid @ drop (s + w) buf"
    by (simp add: buf1_def write_view_def read_view_def)
  show "length buf1 = length buf" using assms(1) mid unfolding b1 by simp
  have t: "take (s + w) buf1 = take s buf @ ?mid"
    using assms(1) mid unfolding b1 by simp
  have d: "drop (s + w) buf1 = drop (s + w) buf"
    using assms(1) mid unfolding b1 by simp
  have "rotate_rows rot (replicate w c @ tabs) (drop s pos) (drop s buf) =
        ?mid @ rotate_rows rot tabs (drop (s + w) pos) (drop (s + w) buf)"
    by (simp add: rotate_rows_append rotate_rows_replicate add.commute)
  then show "take (s + w) buf1 @ rotate_rows rot tabs (drop (s + w) pos) (drop (s + w) buf1) =
         take s buf @ rotate_rows rot (replicate w c @ tabs) (drop s pos) (drop s buf)"
    unfolding t d by simp
qed

lemma kernel_buffer_last:
  fixes buf :: "'r list"
  assumes "s \<le> n" "length buf = n" "length pos = n"
  shows "write_view (s, n - s) (map2 (rot c) (read_view (s, n - s) pos) (read_view (s, n - s) buf)) buf
         = take s buf @ rotate_rows rot (replicate (n - s) c) (drop s pos) (drop s buf)"
  using assms by (simp add: write_view_def read_view_def rotate_rows_replicate)

lemma row_tables_Cons:
  "row_tables (st # tr) (v # vs) = replicate (snd v) (cos_sin_cache st) @ row_tables tr vs"
  by (simp add: row_tables_def)

lemma row_tables_Nil: "row_tables [] vs = []" "row_tables tr [] = []"
  by (simp_all add: row_tables_def)

lemma forward_loop_good:
  fixes rot :: "table \<Rightarrow> int \<Rightarrow> 'r \<Rightarrow> 'r"
  assumes cfg: "0 < config_seq_length cfg" "0 \<le> rotary_dim cfg" "even (rotary_dim cfg)"
      "rotary_dim cfg \<noteq> 2"
    and pos: "length positions = n"
  shows "\<lbrakk>lens \<noteq> []; \<forall>l\<in>set lens. 1 \<le> l; prev ls = int s;
          s + declared_rows ic lens \<le> n;
          length (query_buf ls) = n; length (key_buf ls) = n;
          \<forall>l\<in>set lens.
            in_double_range (real_of_int l / real_of_int (config_seq_length cfg))\<rbrakk> \<Longrightarrow>
     \<exists>tr ls'. run_updates mlog cfg (self_state ls) lens = Inr tr \<and> length tr = length lens \<and>
        forward_loop mlog cfg rot ic positions lens ls = Inr ls' \<and>
        self_state ls' = last tr \<and>
        query_buf ls' = take s (query_buf ls) @
          rotate_rows rot (row_tables tr (slices_spec ic lens s n))
            (drop s positions) (drop s (query_buf ls)) \<and>
        key_buf ls' = take s (key_buf ls) @
          rotate_rows rot (row_tables tr (slices_spec ic lens s n))
            (drop s positions) (drop s (key_buf ls)) \<and>
        query_list ls' = query_list ls @ slices_spec ic lens s n \<and>
        key_list ls' = key_list ls @ slices_spec ic lens s n"
proof (induction lens arbitrary: ls s)
  case Nil
  then show ?case by simp
next
  case (Cons l rest)
  have l: "1 \<le> l" using Cons.prems(2) by simp
  have rg: "in_double_range (real_of_int l / real_of_int (config_seq_length cfg))"
    using Cons.prems(7) by simp
  define st1 where "st1 = (if must_rebuild mlog cfg (self_state ls) l then rebuilt mlog cfg l
                           else self_state ls)"
  have upd: "update_cos_sin_cache mlog cfg (self_state ls) l = Inr st1"
    unfolding st1_def by (rule update_cos_sin_cache_eq [OF l cfg rg])
  define w where "w = sample_width ic l"
  have end_eq: "(if ic then int s + 1 else int s + l) = int s + int w"
    using l by (simp add: w_def sample_width_def)
  have sn: "s + w + declared_rows ic rest \<le> n"
    using Cons.prems(4) by (simp add: declared_rows_def w_def)
  show ?case
  proof (cases rest)
    case Nil
    have s: "s \<le> n" using sn by simp
    have "forward_loop mlog cfg rot ic positions [l] ls =
            Inr \<lparr>self_state = st1,
                 query_buf = take s (query_buf ls) @
                   rotate_rows rot (replicate (n - s) (cos_sin_cache st1))
                     (drop s positions) (drop s (query_buf ls)),
                 key_buf = take s (key_buf ls) @
                   rotate_rows rot (replicate (n - s) (cos_sin_cache st1))
                     (drop s positions) (drop s (key_buf ls)),
                 query_list = query_list ls @ [(s, n - s)],
                 key_list = key_list ls @ [(s, n - s)],
                 prev = int s + int w\<rparr>"
      using upd end_eq
      by (simp add: Cons.prems(3,5,6) pos slice_view_last [OF s] rotary_embedding_def
          kernel_buffer_last [OF s _ pos] Let_def)
    then show ?thesis
      using upd Nil by (simp add: row_tables_def)
  next
    case (Cons l' ls2)
    have ne: "rest \<noteq> []" using Cons by simp
    have sw: "s + w \<le> n" using sn by simp
    define qb1 where "qb1 = write_view (s, w)
        (map2 (rot (cos_sin_cache st1)) (read_view (s, w) positions)
           (read_view (s, w) (query_buf ls))) (query_buf ls)"
    define kb1 where "kb1 = write_view (s, w)
        (map2 (rot (cos_sin_cache st1)) (read_view (s, w) positions)
           (read_view (s, w) (key_buf ls))) (key_buf ls)"
    define ls1 where "ls1 = \<lparr>self_state = st1, query_buf = qb1, key_buf = kb1,
        query_list = query_list ls @ [(s, w)], key_list = key_list ls @ [(s, w)],
        prev = int (s + w)\<rparr>"
    have swq: "s + w \<le> length (query_buf ls)" and swk: "s + w \<le> length (key_buf ls)"
      and swp: "s + w \<le> length positions"
      using sw Cons.prems(5,6) pos by simp_all
    note q = kernel_buffer [where rot = rot and c = "cos_sin_cache st1", OF swq swp qb1_def]
    note k = kernel_buffer [where rot = rot and c = "cos_sin_cache st1", OF swk swp kb1_def]
    have step: "forward_loop mlog cfg rot ic positions (l # rest) ls =
                forward_loop mlog cfg rot ic positions rest ls1"
      using upd end_eq ne
      by (simp add: Cons.prems(3,5,6) pos slice_view_inner [OF sw] rotary_embedding_def
          ls1_def qb1_def kb1_def Let_def)
    have "\<exists>tr ls'. run_updates mlog cfg (self_state ls1) rest = Inr tr \<and>
        length tr = length rest \<and>
        forward_loop mlog cfg rot ic positions rest ls1 = Inr ls' \<and>
        self_state ls' = last tr \<and>
        query_buf ls' = take (s + w) (query_buf ls1) @
          rotate_rows rot (row_tables tr (slices_spec ic rest (s + w) n))
            (drop (s + w) positions) (drop (s + w) (query_buf ls1)) \<and>
        key_buf ls' = take (s + w) (key_buf ls1) @
          rotate_rows rot (row_tables tr (slices_spec ic rest (s + w) n))
            (drop (s + w) positions) (drop (s + w) (key_buf ls1)) \<and>
        query_list ls' = query_list ls1 @ slices_spec ic rest (s + w) n \<and>
        key_list ls' = key_list ls1 @ slices_spec ic rest (s + w) n"
    proof (rule Cons.IH)
      show "rest \<noteq> []" by (rule ne)
      show "\<forall>l\<in>set rest. 1 \<le> l" using Cons.prems(2) by simp
      show "prev ls1 = int (s + w)" by (simp add: ls1_def)
      show "s + w + declared_rows ic rest \<le> n" by (rule sn)
      show "length (query_buf ls1) = n" using q(1) Cons.prems(5) by (simp add: ls1_def)
      show "length (key_buf ls1) = n" using k(1) Cons.prems(6) by (simp add: ls1_def)
      show "\<forall>l\<in>set rest.
          in_double_range (real_of_int l / real_of_int (config_seq_length cfg))"
        using Cons.prems(7) by simp
    qed
    then obtain tr ls' where ih:
      "run_updates mlog cfg st1 rest = Inr tr" "length tr = length rest"
      "forward_loop mlog cfg rot ic positions rest ls1 = Inr ls'"
      "self_state ls' = last tr"
      "query_buf ls' = take (s + w) qb1 @
          rotate_rows rot (row_tables tr (slices_spec ic rest (s + w) n))
            (drop (s + w) positions) (drop (s + w) qb1)"
      "key_buf ls' = take (s + w) kb1 @
          rotate_rows rot (row_tables tr (slices_spec ic rest (s + w) n))
            (drop (s + w) positions) (drop (s + w) kb1)"
      "query_list ls' = (query_list ls @ [(s, w)]) @ slices_spec ic rest (s + w) n"
      "key_list ls' = (key_list ls @ [(s, w)]) @ slices_spec ic rest (s + w) n"
      by (auto simp add: ls1_def)
    have sl: "slices_spec ic (l # rest) s n = (s, w) # slices_spec ic rest (s + w) n"
      using Cons by (simp add: w_def)
    have tr_ne: "tr \<noteq> []" using ih(2) ne by auto
    have "run_updates mlog cfg (self_state ls) (l # rest) = Inr (st1 # tr)"
      using upd ih(1) by simp
    moreover have "length (st1 # tr) = length (l # rest)" using ih(2) by simp
    moreover have "forward_loop mlog cfg rot ic positions (l # rest) ls = Inr ls'"
      using step ih(3) by simp
    moreover have "self_state ls' = last (st1 # tr)" using ih(4) tr_ne by simp
    moreover have "query_buf ls' = take s (query_buf ls) @
          rotate_rows rot (row_tables (st1 # tr) (slices_spec ic (l # rest) s n))
            (drop s positions) (drop s (query_buf ls))"
      unfolding ih(5) sl row_tables_Cons snd_conv by (rule q(2))
    moreover have "key_buf ls' = take s (key_buf ls) @
          rotate_rows rot (row_tables (st1 # tr) (slices_spec ic (l # rest) s n))
            (drop s positions) (drop s (key_buf ls))"
      unfolding ih(6) sl row_tables_Cons snd_conv by (rule k(2))
    moreover have "query_list ls' = query_list ls @ slices_spec ic (l # rest) s n"
      unfolding ih(7) sl by simp
    moreover have "key_list ls' = key_list ls @ slices_spec ic (l # rest) s n"
      unfolding ih(8) sl by simp
    ultimately show ?thesis by blast
  qed
qed

lemma read_slices_spec:
  "\<lbrakk>lens \<noteq> []; s + declared_rows ic lens \<le> n; length buf = n\<rbrakk> \<Longrightarrow>
     concat (map (\<lambda>v. read_view v buf) (slices_spec ic lens s n)) = drop s buf"
proof (induction ic lens s n rule: slices_spec.induct)
  case (1 ic s n)
  then show ?case by simp
next
  case (2 ic l s n)
  then show ?case by (simp add: read_view_def)
next
  case (3 ic l l' ls s n)
  have "concat (map (\<lambda>v. read_view v buf)
          (slices_spec ic (l' # ls) (s + sample_width ic l) n)) =
        drop (s + sample_width ic l) buf"
    using 3 by (simp add: declared_rows_def)
  moreover have "take (sample_width ic l) (drop s buf) @ drop (s + sample_width ic l) buf =
      drop s buf"
  proof -
    have "drop (s + sample_width ic l) buf = drop (sample_width ic l) (drop s buf)"
      by (simp add: add.commute)
    then show ?thesis by (simp only: append_take_drop_id)
  qed
  ultimately show ?case
    by (simp add: read_view_def del: drop_drop)
qed

lemma length_row_tables:
  "\<lbrakk>lens \<noteq> []; s + declared_rows ic lens \<le> n; length tr = length lens\<rbrakk> \<Longrightarrow>
     length (row_tables tr (slices_spec ic lens s n)) = n - s"
proof (induction ic lens s n arbitrary: tr rule: slices_spec.induct)
  case (1 ic s n)
  then show ?case by simp
next
  case (2 ic l s n)
  then obtain st where "tr = [st]" by (cases tr) auto
  then show ?case by (simp add: row_tables_def)
next
  case (3 ic l l' ls s n)
  then obtain st tr' where tr: "tr = st # tr'" by (cases tr) auto
  have "length (row_tables tr' (slices_spec ic (l' # ls) (s + sample_width ic l) n)) =
          n - (s + sample_width ic l)"
    using 3 tr by (simp add: declared_rows_def)
  moreover have "s + sample_width ic l \<le> n" using "3.prems"(2) by (simp add: declared_rows_def)
  ultimately show ?case
    using tr by (simp add: row_tables_Cons)
qed

lemma slices_spec_ne: "lens \<noteq> [] \<Longrightarrow> slices_spec ic lens s n \<noteq> []"
  by (induction ic lens s n rule: slices_spec.induct) simp_all

lemma rotate_rows_nth:
  assumes "t < length tabs" "t < length ps" "t < length rows"
  shows "rotate_rows rot tabs ps rows ! t = rot (tabs ! t) (ps ! t) (rows ! t)"
  using assms by (simp add: rotate_rows_def)

lemma forward_empty:
  assumes "prompt_lens md = []" "context_lens md = []"
  shows "forward mlog cfg rot st positions query key md = Inl RuntimeError"
  using assms by (simp add: forward_def torch_cat_def)

lemma forward_prefill_ignores_context:
  assumes "prompt_lens md \<noteq> []"
  shows "forward mlog cfg rot st positions query key md =
         forward mlog cfg rot st positions query key (md\<lparr>context_lens := cl\<rparr>)"
  using assms by (simp add: forward_def)

lemma forward_good:
  fixes rot :: "table \<Rightarrow> int \<Rightarrow> 'r \<Rightarrow> 'r"
  assumes cfg: "0 < config_seq_length cfg" "0 \<le> rotary_dim cfg" "even (rotary_dim cfg)"
      "rotary_dim cfg \<noteq> 2"
    and lens: "seq_lens = (if prompt_lens md \<noteq> [] then prompt_lens md else context_lens md)"
    and ic: "is_continue = (prompt_lens md = [])"
    and ne: "seq_lens \<noteq> []" and pos1: "\<forall>l\<in>set seq_lens. 1 \<le> l"
    and decl: "declared_rows is_continue seq_lens \<le> n"
    and len: "length positions = n" "length query = n" "length key = n"
    and rg: "\<forall>l\<in>set seq_lens.
               in_double_range (real_of_int l / real_of_int (config_seq_length cfg))"
  shows "\<exists>tr ls.
     run_updates mlog cfg st seq_lens = Inr tr \<and> length tr = length seq_lens \<and>
     forward_loop mlog cfg rot is_continue positions seq_lens
       \<lparr>self_state = st, query_buf = query, key_buf = key,
        query_list = [], key_list = [], prev = 0\<rparr> = Inr ls \<and>
     query_list ls = slices_spec is_continue seq_lens 0 n \<and>
     key_list ls = slices_spec is_continue seq_lens 0 n \<and>
     forward mlog cfg rot st positions query key md =
       Inr (last tr,
            rotate_rows rot (row_tables tr (slices_spec is_continue seq_lens 0 n))
              positions query,
            rotate_rows rot (row_tables tr (slices_spec is_continue seq_lens 0 n))
              positions key) \<and>
     length (row_tables tr (slices_spec is_continue seq_lens 0 n)) = n"
proof -
  let ?ls0 = "\<lparr>self_state = st, query_buf = query, key_buf = key,
        query_list = [], key_list = [], prev = 0\<rparr> :: 'r loop_state"
  let ?vs = "slices_spec is_continue seq_lens 0 n"
  have "\<exists>tr ls'. run_updates mlog cfg (self_state ?ls0) seq_lens = Inr tr \<and>
        length tr = length seq_lens \<and>
        forward_loop mlog cfg rot is_continue positions seq_lens ?ls0 = Inr ls' \<and>
        self_state ls' = last tr \<and>
        query_buf ls' = take 0 (query_buf ?ls0) @
          rotate_rows rot (row_tables tr (slices_spec is_continue seq_lens 0 n))
            (drop 0 positions) (drop 0 (query_buf ?ls0)) \<and>
        key_buf ls' = take 0 (key_buf ?ls0) @
          rotate_rows rot (row_tables tr (slices_spec is_continue seq_lens 0 n))
            (drop 0 positions) (drop 0 (key_buf ?ls0)) \<and>
        query_list ls' = query_list ?ls0 @ slices_spec is_continue seq_lens 0 n \<and>
        key_list ls' = key_list ?ls0 @ slices_spec is_continue seq_lens 0 n"
    by (rule forward_loop_good [OF cfg len(1) ne pos1]) (simp_all add: decl len rg)
  then obtain tr ls where r:
    "run_updates mlog cfg st seq_lens = Inr tr" "length tr = length seq_lens"
    "forward_loop mlog cfg rot is_continue positions seq_lens ?ls0 = Inr ls"
    "self_state ls = last tr"
    "query_buf ls = rotate_rows rot (row_tables tr ?vs) positions query"
    "key_buf ls = rotate_rows rot (row_tables tr ?vs) positions key"
    "query_list ls = ?vs" "key_list ls = ?vs"
    by auto
  have lt: "length (row_tables tr ?vs) = n"
    using length_row_tables [OF ne _ r(2), of 0 is_continue n] decl by simp
  have lq: "length (query_buf ls) = n" and lk: "length (key_buf ls) = n"
    unfolding r(5,6) by (simp_all add: length_rotate_rows lt len)
  have cq: "concat (map (\<lambda>v. read_view v (query_buf ls)) ?vs) = query_buf ls"
    using read_slices_spec [OF ne _ lq, of 0 is_continue] decl by simp
  have ck: "concat (map (\<lambda>v. read_view v (key_buf ls)) ?vs) = key_buf ls"
    using read_slices_spec [OF ne _ lk, of 0 is_continue] decl by simp
  have loop: "forward_loop mlog cfg rot (prompt_lens md = []) positions
      (if prompt_lens md \<noteq> [] then prompt_lens md else context_lens md) ?ls0 = Inr ls"
    using r(3) unfolding lens ic .
  have "forward mlog cfg rot st positions query key md =
          Inr (last tr, query_buf ls, key_buf ls)"
    using loop cq ck slices_spec_ne [OF ne, of is_continue 0 n]
    by (auto simp add: forward_def torch_cat_def r(4,7,8))
  then show ?thesis
    using r lt by (simp add: r(5,6))
qed

section \<open>The claims\<close>

text \<open>
  C1. For the adaptive variant, for every true length of at least 1 and every cache state,
  the recompute policy rebuilds exactly when the true length exceeds the cached length or
  alpha differs from the cached alpha. A rebuild uses the effective base
  \<open>base \<times> alpha^(rotary_dim/(rotary_dim - 2))\<close>, sets the cached length to
  \<open>max(2 \<times> true_len, 16)\<close>, builds the table over exactly that many positions with the
  unscaled position index and stores alpha; otherwise the state is left as it was. The
  configuration is a valid one (positive reference length, even non-negative
  \<open>rotary_dim\<close> other than 2) and the quotient of the true length and the reference
  length is in the range of the doubles. Alpha is what \<^verbatim>\<open>get_ntk_alpha\<close> returns, whatever
  logarithm the platform computes.
\<close>

theorem recompute_policy:
  assumes "1 \<le> true_len" "0 < config_seq_length cfg"
    and "0 \<le> rotary_dim cfg" "even (rotary_dim cfg)" "rotary_dim cfg \<noteq> 2"
    and "in_double_range (real_of_int true_len / real_of_int (config_seq_length cfg))"
  shows "\<exists>alpha st'.
           get_ntk_alpha mlog cfg true_len = Inr alpha \<and>
           update_cos_sin_cache mlog cfg st true_len = Inr st' \<and>
           (if true_len > seq_len_cached st \<or> alpha \<noteq> ntk_alpha_cached st
            then seq_len_cached st' = max (2 * true_len) 16 \<and>
                 ntk_alpha_cached st' = alpha \<and>
                 cos_sin_cache st' =
                   table_spec
                     (inv_freq_spec
                        (base cfg * alpha powr (real_of_int (rotary_dim cfg) /
                                                real_of_int (rotary_dim cfg - 2)))
                        (rotary_dim cfg))
                     (nat (seq_len_cached st')) \<and>
                 int (length (cos_sin_cache st')) = seq_len_cached st'
            else st' = st)"
proof -
  have "0 \<le> max (2 * true_len) 16" by simp
  then show ?thesis
    using get_ntk_alpha_eq [OF assms(2,1,6), where mlog = mlog]
      update_cos_sin_cache_eq [OF assms, where mlog = mlog and st = st]
    by (simp add: must_rebuild_def rebuilt_def base_eff_def Let_def length_table_spec)
qed

theorem recompute_policy_witness:
  "(1::int) \<le> 8193 \<and> 0 < config_seq_length qwen_7b \<and> 0 \<le> rotary_dim qwen_7b \<and>
   even (rotary_dim qwen_7b) \<and> rotary_dim qwen_7b \<noteq> 2 \<and>
   in_double_range (real_of_int 8193 / real_of_int (config_seq_length qwen_7b)) \<and>
   get_ntk_alpha (log 2) qwen_7b 8193 = Inr 3 \<and>
   map_sum id seq_len_cached (update_cos_sin_cache (log 2) qwen_7b qwen_7b_init 8193) =
     Inr 16386 \<and>
   map_sum id ntk_alpha_cached (update_cos_sin_cache (log 2) qwen_7b qwen_7b_init 8193) =
     Inr 3"
  using recompute_policy [where true_len = 8193 and cfg = qwen_7b and mlog = "log 2"
      and st = qwen_7b_init]
    in_double_range_8192 [of 8193]
  by (auto simp add: qwen_7b_simps qwen_7b_init_def alpha_spec_8192 ntk_alpha_value_exact
      get_ntk_alpha_eq)




text \<open>
  C3. For every non-empty batch of the adaptive variant's forward whose lengths are at
  least 1 (with quotients in the range of the doubles) and declare no more rows than the
  flat buffers hold, the loop takes the consecutive per-sample ranges in the order of the
  batch (the declared length in prefill mode, one row in decode mode, the last range
  extending to the end of the buffers), and the returned query and key have the rows of
  the input in the input's order: row \<open>t\<close> of the output is row \<open>t\<close> of the input rotated
  at position \<open>positions[t]\<close>, with the table the policy produced for the sample whose
  range holds \<open>t\<close>.
\<close>

theorem forward_partition_and_order:
  fixes rot :: "table \<Rightarrow> int \<Rightarrow> 'r \<Rightarrow> 'r"
  assumes "0 < config_seq_length cfg" "0 \<le> rotary_dim cfg" "even (rotary_dim cfg)"
      "rotary_dim cfg \<noteq> 2"
    and "seq_lens = (if prompt_lens md \<noteq> [] then prompt_lens md else context_lens md)"
    and "is_continue = (prompt_lens md = [])"
    and "seq_lens \<noteq> []" and "\<forall>l\<in>set seq_lens. 1 \<le> l"
    and "declared_rows is_continue seq_lens \<le> n"
    and "length positions = n" "length query = n" "length key = n"
    and "\<forall>l\<in>set seq_lens.
           in_double_range (real_of_int l / real_of_int (config_seq_length cfg))"
  shows "\<exists>tr ls q' k'.
     run_updates mlog cfg st seq_lens = Inr tr \<and> length tr = length seq_lens \<and>
     forward_loop mlog cfg rot is_continue positions seq_lens
       \<lparr>self_state = st, query_buf = query, key_buf = key,
        query_list = [], key_list = [], prev = 0\<rparr> = Inr ls \<and>
     query_list ls = slices_spec is_continue seq_lens 0 n \<and>
     key_list ls = slices_spec is_continue seq_lens 0 n \<and>
     forward mlog cfg rot st positions query key md = Inr (last tr, q', k') \<and>
     q' = rotate_rows rot (row_tables tr (slices_spec is_continue seq_lens 0 n))
            positions query \<and>
     k' = rotate_rows rot (row_tables tr (slices_spec is_continue seq_lens 0 n))
            positions key \<and>
     length q' = n \<and> length k' = n \<and>
     (\<forall>t<n. q' ! t = rot (row_tables tr (slices_spec is_continue seq_lens 0 n) ! t)
                        (positions ! t) (query ! t) \<and>
             k' ! t = rot (row_tables tr (slices_spec is_continue seq_lens 0 n) ! t)
                        (positions ! t) (key ! t))"
proof -
  let ?vs = "slices_spec is_continue seq_lens 0 n"
  obtain tr ls where r:
    "run_updates mlog cfg st seq_lens = Inr tr" "length tr = length seq_lens"
    "forward_loop mlog cfg rot is_continue positions seq_lens
       \<lparr>self_state = st, query_buf = query, key_buf = key,
        query_list = [], key_list = [], prev = 0\<rparr> = Inr ls"
    "query_list ls = ?vs" "key_list ls = ?vs"
    "forward mlog cfg rot st positions query key md =
       Inr (last tr, rotate_rows rot (row_tables tr ?vs) positions query,
            rotate_rows rot (row_tables tr ?vs) positions key)"
    "length (row_tables tr ?vs) = n"
    using forward_good [OF assms, where rot = rot and st = st and mlog = mlog] by blast
  have lq: "length (rotate_rows rot (row_tables tr ?vs) positions query) = n"
    and lk: "length (rotate_rows rot (row_tables tr ?vs) positions key) = n"
    using r(7) assms(10-12) by (simp_all add: length_rotate_rows)
  have nth: "\<forall>t<n.
      rotate_rows rot (row_tables tr ?vs) positions query ! t =
        rot (row_tables tr ?vs ! t) (positions ! t) (query ! t) \<and>
      rotate_rows rot (row_tables tr ?vs) positions key ! t =
        rot (row_tables tr ?vs ! t) (positions ! t) (key ! t)"
    using r(7) assms(10-12) by (simp add: rotate_rows_nth)
  show ?thesis
    using r(1-6) lq lk nth by blast
qed

theorem forward_partition_and_order_witness:
  "0 < config_seq_length qwen_7b \<and> 0 \<le> rotary_dim qwen_7b \<and> even (rotary_dim qwen_7b) \<and>
   rotary_dim qwen_7b \<noteq> 2 \<and>
   [4, 7, 5] \<noteq> ([] :: int list) \<and> (1::int) \<le> 4 \<and> (1::int) \<le> 7 \<and> (1::int) \<le> 5 \<and>
   declared_rows False [4, 7, 5] \<le> 18 \<and>
   in_double_range (4 / 8192) \<and> in_double_range (7 / 8192) \<and>
   in_double_range (5 / 8192) \<and>
   slices_spec False [4, 7, 5] 0 18 = [(0, 4), (4, 7), (11, 7)] \<and>
   map_sum id (\<lambda>r. (length (fst (snd r)), length (snd (snd r))))
     (forward (log 2) qwen_7b (\<lambda>c p r. r + 1) qwen_7b_init (replicate 18 0)
        (replicate 18 (10::nat)) (replicate 18 20)
        \<lparr>prompt_lens = [4, 7, 5], context_lens = []\<rparr>) = Inr (18, 18)"
proof -
  have r: "in_double_range (4 / 8192)" "in_double_range (7 / 8192)"
    "in_double_range (5 / 8192)"
    using in_double_range_8192 [of 4] in_double_range_8192 [of 7]
      in_double_range_8192 [of 5] by simp_all
  show ?thesis
    using forward_partition_and_order [where cfg = qwen_7b and seq_lens = "[4, 7, 5]"
      and md = "\<lparr>prompt_lens = [4, 7, 5], context_lens = []\<rparr>"
      and is_continue = False and n = 18 and positions = "replicate 18 0"
      and query = "replicate 18 (10::nat)" and key = "replicate 18 20"
      and rot = "\<lambda>c p r. r + 1" and st = qwen_7b_init and mlog = "log 2"] r
    by (auto simp add: qwen_7b_simps declared_rows_def sample_width_def)
qed

text \<open>
  C4, as stated: a batch with zero samples is a no-op that returns empty buffers and does
  not raise. It fails on the code: with both length lists empty the loop does not run and
  \<^verbatim>\<open>torch.cat\<close> is given an empty list, which raises.
\<close>

theorem empty_batch_raises:
  "forward (log 2) qwen_7b (\<lambda>c p r. r) qwen_7b_init [] ([] :: real list list) []
     \<lparr>prompt_lens = [], context_lens = []\<rparr> = Inl RuntimeError"
  by (simp add: forward_def torch_cat_def)

text \<open>
  C4, amended: for a batch with zero samples the loop of forward leaves the instance and
  the buffers untouched (no recompute, no rotation), and forward returns no buffers: the
  concatenation of the empty list of slices raises.
\<close>

theorem empty_batch_no_result:
  assumes "prompt_lens md = []" "context_lens md = []"
  shows "forward_loop mlog cfg rot True positions (context_lens md) ls = Inr ls \<and>
         forward mlog cfg rot st positions query key md = Inl RuntimeError"
  using assms forward_empty [OF assms] by simp

theorem empty_batch_no_result_witness:
  "prompt_lens \<lparr>prompt_lens = [], context_lens = []\<rparr> = [] \<and>
   context_lens \<lparr>prompt_lens = [], context_lens = []\<rparr> = [] \<and>
   forward (log 2) qwen_7b (\<lambda>c p r. r + 1) qwen_7b_init [] ([] :: nat list) []
     \<lparr>prompt_lens = [], context_lens = []\<rparr> = Inl RuntimeError"
  using empty_batch_no_result [where md = "\<lparr>prompt_lens = [], context_lens = []\<rparr>"
      and cfg = qwen_7b and rot = "\<lambda>c p r. r + 1" and st = qwen_7b_init
      and positions = "[]" and query = "[] :: nat list" and key = "[]" and mlog = "log 2"]
  by simp

text \<open>
  C5, as stated: metadata with both the prefill lengths and the decode lengths populated
  is rejected with an error. It fails on the code: one prompt of length 1 together with a
  context length of 5 is processed as a prefill batch and the rotated rows are returned.
\<close>

theorem both_populated_processed:
  "map_sum id snd
     (forward (log 2) qwen_7b (\<lambda>c p r. r + 1) qwen_7b_init [0] [10 :: nat] [20]
        \<lparr>prompt_lens = [1], context_lens = [5]\<rparr>) = Inr ([11], [21])"
proof -
  have "update_cos_sin_cache (log 2) qwen_7b qwen_7b_init 1 = Inr (rebuilt (log 2) qwen_7b 1)"
    using in_double_range_8192 [of 1]
    by (simp add: update_cos_sin_cache_eq must_rebuild_def qwen_7b_simps qwen_7b_init_def)
  then show ?thesis
    by (simp add: forward_def Let_def slice_view_def norm_index_def rotary_embedding_def
        read_view_def write_view_def torch_cat_def)
qed

text \<open>
  C5, amended: metadata in which neither list is populated is rejected with an error.
  Metadata in which the prefill lengths are populated is not rejected, whatever the
  decode lengths hold (so also when both are populated): for a well-formed batch forward
  returns a result, and it is the result of a prefill batch, every sample spanning its
  declared prefill length and the decode lengths having no influence.
\<close>

theorem metadata_selection:
  fixes rot :: "table \<Rightarrow> int \<Rightarrow> 'r \<Rightarrow> 'r"
  assumes "0 < config_seq_length cfg" "0 \<le> rotary_dim cfg" "even (rotary_dim cfg)"
      "rotary_dim cfg \<noteq> 2"
    and "prompt_lens md \<noteq> []" and "\<forall>l\<in>set (prompt_lens md). 1 \<le> l"
    and "declared_rows False (prompt_lens md) \<le> n"
    and "length positions = n" "length query = n" "length key = n"
    and "\<forall>l\<in>set (prompt_lens md).
           in_double_range (real_of_int l / real_of_int (config_seq_length cfg))"
    and "prompt_lens md' = []" "context_lens md' = []"
  shows "(\<exists>tr. run_updates mlog cfg st (prompt_lens md) = Inr tr \<and>
               length tr = length (prompt_lens md) \<and>
               forward mlog cfg rot st positions query key md =
                 Inr (last tr,
                      rotate_rows rot
                        (row_tables tr (slices_spec False (prompt_lens md) 0 n))
                        positions query,
                      rotate_rows rot
                        (row_tables tr (slices_spec False (prompt_lens md) 0 n))
                        positions key)) \<and>
         forward mlog cfg rot st positions query key (md\<lparr>context_lens := cl\<rparr>) =
           forward mlog cfg rot st positions query key md \<and>
         forward mlog cfg rot st positions query key md' = Inl RuntimeError"
proof -
  have s: "prompt_lens md = (if prompt_lens md \<noteq> [] then prompt_lens md else context_lens md)"
    and c: "False = (prompt_lens md = [])"
    using assms(5) by simp_all
  have "\<exists>tr ls.
     run_updates mlog cfg st (prompt_lens md) = Inr tr \<and>
     length tr = length (prompt_lens md) \<and>
     forward_loop mlog cfg rot False positions (prompt_lens md)
       \<lparr>self_state = st, query_buf = query, key_buf = key,
        query_list = [], key_list = [], prev = 0\<rparr> = Inr ls \<and>
     query_list ls = slices_spec False (prompt_lens md) 0 n \<and>
     key_list ls = slices_spec False (prompt_lens md) 0 n \<and>
     forward mlog cfg rot st positions query key md =
       Inr (last tr,
            rotate_rows rot (row_tables tr (slices_spec False (prompt_lens md) 0 n))
              positions query,
            rotate_rows rot (row_tables tr (slices_spec False (prompt_lens md) 0 n))
              positions key) \<and>
     length (row_tables tr (slices_spec False (prompt_lens md) 0 n)) = n"
    by (rule forward_good [OF assms(1-4) s c assms(5-11)])
  moreover have "forward mlog cfg rot st positions query key (md\<lparr>context_lens := cl\<rparr>) =
           forward mlog cfg rot st positions query key md"
    by (rule forward_prefill_ignores_context [OF assms(5), symmetric])
  moreover have "forward mlog cfg rot st positions query key md' = Inl RuntimeError"
    by (rule forward_empty [OF assms(12,13)])
  ultimately show ?thesis by blast
qed

theorem metadata_selection_witness:
  "0 < config_seq_length qwen_7b \<and> 0 \<le> rotary_dim qwen_7b \<and> even (rotary_dim qwen_7b) \<and>
   rotary_dim qwen_7b \<noteq> 2 \<and>
   prompt_lens \<lparr>prompt_lens = [1], context_lens = [5]\<rparr> \<noteq> [] \<and>
   context_lens \<lparr>prompt_lens = [1], context_lens = [5]\<rparr> \<noteq> [] \<and>
   (1::int) \<le> 1 \<and> declared_rows False [1] \<le> 1 \<and> in_double_range (1 / 8192) \<and>
   prompt_lens \<lparr>prompt_lens = [], context_lens = []\<rparr> = [] \<and>
   context_lens \<lparr>prompt_lens = [], context_lens = []\<rparr> = [] \<and>
   slices_spec False [1] 0 1 = [(0, 1)] \<and>
   map_sum id snd
     (forward (log 2) qwen_7b (\<lambda>c p r. r + 1) qwen_7b_init [0] [10 :: nat] [20]
       \<lparr>prompt_lens = [1], context_lens = [5]\<rparr>) = Inr ([11], [21]) \<and>
   forward (log 2) qwen_7b (\<lambda>c p r. r + 1) qwen_7b_init [0] [10 :: nat] [20]
       \<lparr>prompt_lens = [1], context_lens = []\<rparr> =
     forward (log 2) qwen_7b (\<lambda>c p r. r + 1) qwen_7b_init [0] [10 :: nat] [20]
       \<lparr>prompt_lens = [1], context_lens = [5]\<rparr> \<and>
   forward (log 2) qwen_7b (\<lambda>c p r. r + 1) qwen_7b_init [0] [10 :: nat] [20]
       \<lparr>prompt_lens = [], context_lens = []\<rparr> = Inl RuntimeError"
proof -
  have r: "in_double_range (1 / 8192)"
    using in_double_range_8192 [of 1] by simp
  show ?thesis
    using metadata_selection [where md = "\<lparr>prompt_lens = [1], context_lens = [5]\<rparr>"
      and md' = "\<lparr>prompt_lens = [], context_lens = []\<rparr>"
      and cfg = qwen_7b and rot = "\<lambda>c p r. r + 1" and st = qwen_7b_init and n = 1
      and positions = "[0]" and query = "[10 :: nat]" and key = "[20]" and cl = "[]"
      and mlog = "log 2"] r
    by (auto simp add: qwen_7b_simps declared_rows_def sample_width_def rotate_rows_def
        row_tables_def length_Suc_conv)
qed




text \<open>
  C7, as stated: every rebuild produces a cached length at least as large as the one
  before. It fails on the code: after a call with the true length 20000 the cached length
  is 40000 and alpha is 7; a call with the true length 10 then has alpha 1, rebuilds, and
  leaves the cached length 20. (At both quotients the ceiling of the logarithm plus one,
  3 and -8, is the same for the doubles as for the real logarithm.)
\<close>

theorem rebuild_shrinks_cache:
  "update_cos_sin_cache (log 2) qwen_7b qwen_7b_init 20000 =
     Inr \<lparr>seq_len_cached = 40000, ntk_alpha_cached = 7,
          cos_sin_cache =
            table_spec (inv_freq_spec (10000 * 7 powr (128 / 126)) 128) 40000\<rparr> \<and>
   update_cos_sin_cache (log 2) qwen_7b
     \<lparr>seq_len_cached = 40000, ntk_alpha_cached = 7,
      cos_sin_cache = table_spec (inv_freq_spec (10000 * 7 powr (128 / 126)) 128) 40000\<rparr>
     10 =
     Inr \<lparr>seq_len_cached = 20, ntk_alpha_cached = 1,
          cos_sin_cache = table_spec (inv_freq_spec 10000 128) 20\<rparr>"
  using in_double_range_8192 [of 20000] in_double_range_8192 [of 10]
  by (simp add: update_cos_sin_cache_eq must_rebuild_def rebuilt_def base_eff_def
      qwen_7b_simps qwen_7b_init_def alpha_spec_8192 ntk_alpha_value_exact)

text \<open>
  C7, amended: every rebuild sets the cached length to \<open>max(2 \<times> true_len, 16)\<close>; a rebuild
  triggered by a true length above the cached length makes the cached length strictly
  larger than it was. (A rebuild triggered by a change of alpha alone may make it
  smaller.)
\<close>

theorem rebuild_growth:
  assumes "1 \<le> true_len" "0 < config_seq_length cfg"
    and "0 \<le> rotary_dim cfg" "even (rotary_dim cfg)" "rotary_dim cfg \<noteq> 2"
    and "in_double_range (real_of_int true_len / real_of_int (config_seq_length cfg))"
  shows "\<exists>st'. update_cos_sin_cache mlog cfg st true_len = Inr st' \<and>
           (st' \<noteq> st \<longrightarrow> seq_len_cached st' = max (2 * true_len) 16) \<and>
           (seq_len_cached st < true_len \<longrightarrow>
              seq_len_cached st' = max (2 * true_len) 16 \<and>
              seq_len_cached st < seq_len_cached st')"
  using assms(1) unfolding update_cos_sin_cache_eq [OF assms]
  by (auto simp add: must_rebuild_def rebuilt_def Let_def)

theorem rebuild_growth_witness:
  "(1::int) \<le> 8193 \<and> 0 < config_seq_length qwen_7b \<and> 0 \<le> rotary_dim qwen_7b \<and>
   even (rotary_dim qwen_7b) \<and> rotary_dim qwen_7b \<noteq> 2 \<and>
   in_double_range (8193 / 8192) \<and>
   seq_len_cached qwen_7b_init < 8193 \<and>
   map_sum id seq_len_cached (update_cos_sin_cache (log 2) qwen_7b qwen_7b_init 8193) =
     Inr 16386"
  using rebuild_growth [where true_len = 8193 and cfg = qwen_7b and st = qwen_7b_init
      and mlog = "log 2"] in_double_range_8192 [of 8193]
  by (auto simp add: qwen_7b_simps qwen_7b_init_def)

text \<open>
  C8. Starting from the state the constructor leaves, every finite sequence of calls of
  the recompute policy whose true lengths are at least 1 (with quotients in the range of
  the doubles) and non-decreasing runs to its end, and the cached lengths before and
  after each call form a non-decreasing sequence.
\<close>

theorem cached_length_monotone:
  assumes "0 < config_seq_length cfg"
    and "0 \<le> rotary_dim cfg" "even (rotary_dim cfg)" "rotary_dim cfg \<noteq> 2"
    and "qwen_init cfg = Inr st0"
    and "sorted true_lens" "\<forall>t\<in>set true_lens. 1 \<le> t"
    and "\<forall>t\<in>set true_lens.
           in_double_range (real_of_int t / real_of_int (config_seq_length cfg))"
  shows "\<exists>tr. run_updates mlog cfg st0 true_lens = Inr tr \<and>
              length tr = length true_lens \<and>
              sorted (map seq_len_cached (st0 # tr))"
proof -
  have "seq_len_cached st0 = 0"
    using assms(5) by (auto simp add: qwen_init_def split: sum.splits)
  then have "\<forall>t\<in>set true_lens. seq_len_cached st0 \<le> max (2 * t) 16"
    by (simp add: le_max_iff_disj)
  then show ?thesis
    using run_updates_sorted [OF assms(1-4) assms(6,7) _ assms(8)] by blast
qed

theorem cached_length_monotone_witness:
  "0 < config_seq_length qwen_7b \<and> 0 \<le> rotary_dim qwen_7b \<and> even (rotary_dim qwen_7b) \<and>
   rotary_dim qwen_7b \<noteq> 2 \<and> qwen_init qwen_7b = Inr qwen_7b_init \<and>
   sorted [10, 8193, 20000 :: int] \<and> (1::int) \<le> 10 \<and> (1::int) \<le> 8193 \<and>
   (1::int) \<le> 20000 \<and>
   in_double_range (10 / 8192) \<and> in_double_range (8193 / 8192) \<and>
   in_double_range (20000 / 8192) \<and>
   map_sum id (map seq_len_cached)
     (run_updates (log 2) qwen_7b qwen_7b_init [10, 8193, 20000]) =
     Inr [20, 16386, 40000]"
proof -
  have i: "qwen_init qwen_7b = Inr qwen_7b_init"
    by (simp add: qwen_init_eq qwen_7b_simps qwen_7b_init_def)
  have r: "in_double_range (10 / 8192)" "in_double_range (8193 / 8192)"
    "in_double_range (20000 / 8192)"
    using in_double_range_8192 [of 10] in_double_range_8192 [of 8193]
      in_double_range_8192 [of 20000] by simp_all
  have "\<exists>tr. run_updates (log 2) qwen_7b qwen_7b_init [10, 8193, 20000] = Inr tr \<and>
          length tr = length [10, 8193, 20000 :: int] \<and>
          sorted (map seq_len_cached (qwen_7b_init # tr))"
    by (rule cached_length_monotone [OF _ _ _ _ i]) (use r in \<open>simp_all add: qwen_7b_simps\<close>)
  moreover have "run_updates (log 2) qwen_7b qwen_7b_init [10, 8193, 20000] =
      Inr [rebuilt (log 2) qwen_7b 10, rebuilt (log 2) qwen_7b 8193,
           rebuilt (log 2) qwen_7b 20000]"
    using r
    by (simp add: update_cos_sin_cache_eq must_rebuild_def rebuilt_def qwen_7b_simps
        qwen_7b_init_def alpha_spec_8192 ntk_alpha_value_exact)
  ultimately show ?thesis
    using i r by (simp add: qwen_7b_simps rebuilt_def Let_def)
qed

text \<open>
  C9. For every true length of at least 1 (with a quotient in the range of the doubles)
  and every starting cache state, two calls of the recompute policy in a row with the
  same true length trigger at most one rebuild: the second call returns the state the
  first call left, unchanged.
\<close>

theorem recompute_twice:
  assumes "1 \<le> true_len" "0 < config_seq_length cfg"
    and "0 \<le> rotary_dim cfg" "even (rotary_dim cfg)" "rotary_dim cfg \<noteq> 2"
    and "in_double_range (real_of_int true_len / real_of_int (config_seq_length cfg))"
  shows "\<exists>st'. update_cos_sin_cache mlog cfg st true_len = Inr st' \<and>
               update_cos_sin_cache mlog cfg st' true_len = Inr st'"
proof (cases "must_rebuild mlog cfg st true_len")
  case True
  then show ?thesis
    using update_cos_sin_cache_eq [OF assms, where mlog = mlog and st = st]
      update_cos_sin_cache_eq [OF assms, where mlog = mlog
        and st = "rebuilt mlog cfg true_len"]
    by (simp add: must_rebuild_rebuilt)
next
  case False
  then show ?thesis
    using update_cos_sin_cache_eq [OF assms, where mlog = mlog and st = st] by simp
qed

theorem recompute_twice_witness:
  "(1::int) \<le> 8193 \<and> 0 < config_seq_length qwen_7b \<and> 0 \<le> rotary_dim qwen_7b \<and>
   even (rotary_dim qwen_7b) \<and> rotary_dim qwen_7b \<noteq> 2 \<and>
   in_double_range (8193 / 8192) \<and>
   update_cos_sin_cache (log 2) qwen_7b qwen_7b_init 8193 =
     Inr (rebuilt (log 2) qwen_7b 8193) \<and>
   update_cos_sin_cache (log 2) qwen_7b (rebuilt (log 2) qwen_7b 8193) 8193 =
     Inr (rebuilt (log 2) qwen_7b 8193)"
  using recompute_twice [where true_len = 8193 and cfg = qwen_7b and st = qwen_7b_init
      and mlog = "log 2"] in_double_range_8192 [of 8193]
  by (auto simp add: qwen_7b_simps qwen_7b_init_def update_cos_sin_cache_eq must_rebuild_def)

text \<open>
  C10. Immediately after construction the metadata of the adaptive variant does not
  describe the table it holds: the constructor builds the baseline table of
  \<open>max_position_embeddings\<close> rows from the unscaled base, while the cached length is 0 and
  the cached alpha is 1. So the first call of the recompute policy rebuilds for every
  true length of at least 1 (with a quotient in the range of the doubles), also when the
  true length is at most the reference length; there, the computed logarithm being at
  most 0, alpha is 1 and the rebuilt table has the frequencies of the baseline table
  again.
\<close>

theorem first_call_rebuilds:
  assumes "1 \<le> true_len" "0 < config_seq_length cfg"
    and "0 \<le> rotary_dim cfg" "even (rotary_dim cfg)" "rotary_dim cfg \<noteq> 2"
    and "in_double_range (real_of_int true_len / real_of_int (config_seq_length cfg))"
    and "0 \<le> max_position_embeddings cfg"
  shows "\<exists>st0 st1 alpha.
           qwen_init cfg = Inr st0 \<and>
           seq_len_cached st0 = 0 \<and> ntk_alpha_cached st0 = 1 \<and>
           cos_sin_cache st0 =
             table_spec (inv_freq_spec (base cfg) (rotary_dim cfg))
               (nat (max_position_embeddings cfg)) \<and>
           int (length (cos_sin_cache st0)) = max_position_embeddings cfg \<and>
           get_ntk_alpha mlog cfg true_len = Inr alpha \<and>
           update_cos_sin_cache mlog cfg st0 true_len = Inr st1 \<and>
           st1 \<noteq> st0 \<and>
           seq_len_cached st1 = max (2 * true_len) 16 \<and>
           ntk_alpha_cached st1 = alpha \<and>
           int (length (cos_sin_cache st1)) = max (2 * true_len) 16 \<and>
           (true_len \<le> config_seq_length cfg \<and>
            mlog (real_of_int true_len / real_of_int (config_seq_length cfg)) \<le> 0 \<longrightarrow>
              alpha = 1 \<and>
              cos_sin_cache st1 =
                table_spec (inv_freq_spec (base cfg) (rotary_dim cfg))
                  (nat (max (2 * true_len) 16)))"
proof -
  let ?a = "ntk_alpha_value mlog (config_seq_length cfg) true_len"
  have "0 \<le> max (2 * true_len) 16" "max (2 * true_len) 16 \<noteq> 0" by simp_all
  moreover have "mlog (real_of_int true_len / real_of_int (config_seq_length cfg)) \<le> 0 \<longrightarrow>
      ?a = 1"
    using ntk_alpha_value_nonpos [where mlog = mlog and t = true_len
        and r = "config_seq_length cfg"]
    by simp
  moreover have "base_eff cfg 1 = base cfg"
    by (simp add: base_eff_def)
  ultimately show ?thesis
    using assms(1,7) unfolding qwen_init_eq [OF assms(7,3,4)]
    by (simp add: update_cos_sin_cache_eq [OF assms(1-6)] get_ntk_alpha_eq [OF assms(2,1,6)]
      must_rebuild_def rebuilt_def Let_def length_table_spec)
qed

theorem first_call_rebuilds_witness:
  "(1::int) \<le> 10 \<and> 0 < config_seq_length qwen_7b \<and> 0 \<le> rotary_dim qwen_7b \<and>
   even (rotary_dim qwen_7b) \<and> rotary_dim qwen_7b \<noteq> 2 \<and>
   in_double_range (10 / 8192) \<and>
   0 \<le> max_position_embeddings qwen_7b \<and> 10 \<le> config_seq_length qwen_7b \<and>
   log 2 (10 / 8192) \<le> (0::real) \<and>
   qwen_init qwen_7b = Inr qwen_7b_init \<and>
   int (length (cos_sin_cache qwen_7b_init)) = 8192 \<and>
   seq_len_cached qwen_7b_init = 0 \<and>
   update_cos_sin_cache (log 2) qwen_7b qwen_7b_init 10 =
     Inr \<lparr>seq_len_cached = 20, ntk_alpha_cached = 1,
          cos_sin_cache = table_spec (inv_freq_spec 10000 128) 20\<rparr>"
proof -
  have i: "qwen_init qwen_7b = Inr qwen_7b_init"
    by (simp add: qwen_init_eq qwen_7b_simps qwen_7b_init_def)
  have r: "in_double_range (10 / 8192)"
    using in_double_range_8192 [of 10] by simp
  have l: "log 2 (10 / 8192) \<le> (0::real)" by simp
  obtain st1 where "update_cos_sin_cache (log 2) qwen_7b qwen_7b_init 10 = Inr st1"
    "seq_len_cached st1 = 20" "ntk_alpha_cached st1 = 1"
    "cos_sin_cache st1 = table_spec (inv_freq_spec 10000 128) 20"
    using first_call_rebuilds [where true_len = 10 and cfg = qwen_7b and mlog = "log 2"] i r l
    by (auto simp add: qwen_7b_simps)
  then show ?thesis
    using i r l by (simp add: qwen_7b_simps qwen_7b_init_def length_table_spec)
qed

end
